theory Spec2Isabelle
  imports Main
begin

section \<open>The collaborators of \<open>smm_code_chk\<close>\<close>

text \<open>
  The module \<open>chipsec/modules/common/smm_code_chk.py\<close> reads the register
  \<open>MSR_SMM_FEATURE_CONTROL\<close> on every CPU thread, classifies each thread and
  folds the per-thread results into one \<open>ModuleResult\<close>.

  Modelled from the spec: \<open>ModuleResult\<close> is declared in \<open>chipsec.module_common\<close>,
  which the module only imports; the spec gives it as a closed enumeration of five
  variants, of which the module names PASSED, FAILED, WARNING, ERROR and NOTAPPLICABLE.
\<close>

datatype ModuleResult = PASSED | FAILED | WARNING | ERROR | NOTAPPLICABLE

text \<open>
  Exceptions are values. \<open>HWAccessViolationError\<close> is the one exception the module
  names (raised by the register accessor); \<open>IndexError\<close> is what Python raises for
  \<open>results[0]\<close> on an empty list; \<open>OtherError\<close> stands for any exception of the
  accessor that \<open>except HWAccessViolationError\<close> does not match.
\<close>

datatype exn = HWAccessViolationError | IndexError | OtherError

text \<open>
  \<open>self.cs\<close>: the chipset object. Its methods are not part of the module, so they are
  parameters: \<open>read_register name cpu_thread\<close> returns the value or raises,
  \<open>get_register_field name value field\<close> decodes a field, and
  \<open>get_cpu_thread_count\<close> is what \<open>self.cs.msr.get_cpu_thread_count()\<close> returns.
  Register values, field values, thread ids and the thread count are Python ints.
\<close>

record chipset =
  read_register :: "string \<Rightarrow> int \<Rightarrow> exn + int"
  get_register_field :: "string \<Rightarrow> int \<Rightarrow> string \<Rightarrow> int"
  get_cpu_thread_count :: int

text \<open>
  Modelled from the spec: \<open>is_supported\<close> calls \<open>read_register\<close> without a thread
  argument; the default of that parameter is declared in the chipset class, not in the
  module. The spec says that the probe treats thread 0 as the representative thread.
\<close>

definition default_cpu_thread :: int where
  "default_cpu_thread = 0"

abbreviation MSR_SMM_FEATURE_CONTROL :: string where
  "MSR_SMM_FEATURE_CONTROL \<equiv> ''MSR_SMM_FEATURE_CONTROL''"

section \<open>Effects: the module's state and its trace\<close>

text \<open>
  Everything the module does besides returning a value is recorded: each call of the
  accessor's \<open>read_register\<close> (also one that raises), each \<open>print_register\<close> and each
  call of the logger, in the order they happen. \<open>self_res\<close> is the attribute
  \<open>self.res\<close>.
\<close>

datatype event =
    ReadRegister string int
  | PrintRegister string int
  | StartTest string
  | LogFailedCheck string
  | LogPassedCheck string
  | Warn string

record module_state =
  self_res :: ModuleResult
  trace :: "event list"

definition emit :: "event \<Rightarrow> module_state \<Rightarrow> module_state" where
  "emit e s = s\<lparr>trace := trace s @ [e]\<rparr>"

definition cs_read_register ::
  "chipset \<Rightarrow> string \<Rightarrow> int \<Rightarrow> module_state \<Rightarrow> (exn + int) \<times> module_state" where
  "cs_read_register cs name cpu_thread s =
     (read_register cs name cpu_thread, emit (ReadRegister name cpu_thread) s)"

section \<open>Python primitives\<close>

text \<open>\<open>range(n)\<close>: the ints from 0 to \<open>n - 1\<close>, empty when \<open>n \<le> 0\<close>.\<close>

definition range_py :: "int \<Rightarrow> int list" where
  "range_py n = [0..n - 1]"

text \<open>
  \<open>xs[i]\<close> on a list: index \<open>i\<close> from the front when it is not negative, index
  \<open>len(xs) + i\<close> when it is, and IndexError when that position does not exist.
\<close>

definition getitem :: "'a list \<Rightarrow> int \<Rightarrow> exn + 'a" where
  "getitem xs i =
     (if 0 \<le> i \<and> i < int (length xs) then Inr (xs ! nat i)
      else if i < 0 \<and> - int (length xs) \<le> i then Inr (xs ! nat (int (length xs) + i))
      else Inl IndexError)"

text \<open>
  \<open>all(_ == results[0] for _ in results)\<close>: the generator evaluates \<open>results[0]\<close>
  once per element, and \<open>all\<close> stops at the first element that differs. The first
  argument is \<open>results\<close>, the second the elements still to be visited.
\<close>

fun all_eq_first :: "'a list \<Rightarrow> 'a list \<Rightarrow> exn + bool" where
  "all_eq_first results [] = Inr True"
| "all_eq_first results (x # xs) =
     (case getitem results 0 of
        Inl e \<Rightarrow> Inl e
      | Inr first \<Rightarrow> if x = first then all_eq_first results xs else Inr False)"

section \<open>The module\<close>

subsection \<open>\<open>is_supported\<close>\<close>

definition is_supported :: "chipset \<Rightarrow> module_state \<Rightarrow> (exn + bool) \<times> module_state" where
  "is_supported cs s =
     (case cs_read_register cs MSR_SMM_FEATURE_CONTROL default_cpu_thread s of
        (Inl e, s1) \<Rightarrow>
          if e = HWAccessViolationError
          then (Inr False, s1\<lparr>self_res := NOTAPPLICABLE\<rparr>)
          else (Inl e, s1)
      | (Inr v, s1) \<Rightarrow> (Inr True, s1))"

subsection \<open>\<open>_check_SMM_Code_Chk_En\<close>\<close>

text \<open>
  The per-thread check (the source's name starts with an underscore, which an Isabelle
  name cannot). An exception of the read is not caught.
\<close>

definition thread_check_SMM_Code_Chk_En ::
  "chipset \<Rightarrow> int \<Rightarrow> module_state \<Rightarrow> (exn + ModuleResult) \<times> module_state" where
  "thread_check_SMM_Code_Chk_En cs thread_id s =
     (case cs_read_register cs MSR_SMM_FEATURE_CONTROL thread_id s of
        (Inl e, s1) \<Rightarrow> (Inl e, s1)
      | (Inr regval, s1) \<Rightarrow>
          (let lock = get_register_field cs MSR_SMM_FEATURE_CONTROL regval ''LOCK'';
               code_chk_en =
                 get_register_field cs MSR_SMM_FEATURE_CONTROL regval ''SMM_Code_Chk_En'';
               s2 = emit (PrintRegister MSR_SMM_FEATURE_CONTROL regval) s1;
               res = (if 1 = code_chk_en
                      then (if 1 = lock then PASSED else FAILED)
                      else WARNING)
           in (Inr res, s2)))"

subsection \<open>\<open>check_SMM_Code_Chk_En\<close>\<close>

text \<open>
  The loop \<open>for tid in range(...): results.append(self._check_SMM_Code_Chk_En(tid))\<close>,
  over the thread ids still to visit, with the list collected so far.
\<close>

fun collect_results ::
  "chipset \<Rightarrow> int list \<Rightarrow> ModuleResult list \<Rightarrow> module_state
     \<Rightarrow> (exn + ModuleResult list) \<times> module_state" where
  "collect_results cs [] results s = (Inr results, s)"
| "collect_results cs (tid # tids) results s =
     (case thread_check_SMM_Code_Chk_En cs tid s of
        (Inl e, s1) \<Rightarrow> (Inl e, s1)
      | (Inr r, s1) \<Rightarrow> collect_results cs tids (results @ [r]) s1)"

definition msg_start_test :: string where
  "msg_start_test = ''SMM_Code_Chk_En (SMM Call-Out) Protection''"

definition msg_not_same :: string where
  "msg_not_same = ''MSR_SMM_FEATURE_CONTROL does not have the same value across all CPUs''"

definition msg_not_locked :: string where
  "msg_not_locked = ''SMM_Code_Chk_En is enabled but not locked down''"

definition msg_not_enabled :: string where
  "msg_not_enabled =
     ''[*] SMM_Code_Chk_En is not enabled.'' @ [CHR 0x0A] @
     ''This can happen either because this feature is not supported by the CPU or because the BIOS forgot to enable it.'' @ [CHR 0x0A] @
     ''Please consult the Intel SDM to determine whether or not your CPU supports SMM_Code_Chk_En.''"

definition msg_locked :: string where
  "msg_locked = ''SMM_Code_Chk_En is enabled and locked down''"

definition check_SMM_Code_Chk_En ::
  "chipset \<Rightarrow> module_state \<Rightarrow> (exn + ModuleResult) \<times> module_state" where
  "check_SMM_Code_Chk_En cs s =
     (let s1 = emit (StartTest msg_start_test) s in
      case collect_results cs (range_py (get_cpu_thread_count cs)) [] s1 of
        (Inl e, s2) \<Rightarrow> (Inl e, s2)
      | (Inr results, s2) \<Rightarrow>
          (case all_eq_first results results of
             Inl e \<Rightarrow> (Inl e, s2)
           | Inr unanimous \<Rightarrow>
               if \<not> unanimous
               then (Inr ERROR, emit (LogFailedCheck msg_not_same) s2)
               else
                 (case getitem results 0 of
                    Inl e \<Rightarrow> (Inl e, s2)
                  | Inr res \<Rightarrow>
                      (let s3 =
                         (if res = ERROR then emit (LogFailedCheck msg_not_locked) s2
                          else if res = WARNING then emit (Warn msg_not_enabled) s2
                          else emit (LogPassedCheck msg_locked) s2)
                       in (Inr res, s3)))))"

subsection \<open>\<open>run\<close>\<close>

definition run ::
  "chipset \<Rightarrow> string list \<Rightarrow> module_state \<Rightarrow> (exn + ModuleResult) \<times> module_state" where
  "run cs module_argv s = check_SMM_Code_Chk_En cs s"

subsection \<open>The caller\<close>

text \<open>
  Modelled from the spec: the framework that calls \<open>is_supported\<close> and then \<open>run\<close> is
  not part of the module. The spec gives its control flow as
  \<open>Start \<rightarrow> Gate{supported?}\<close>: on false the terminal outcome is the result that the
  gate recorded and the aggregation is skipped, on true the aggregation runs. An
  exception of either step reaches the caller.
\<close>

definition run_gated ::
  "chipset \<Rightarrow> string list \<Rightarrow> module_state \<Rightarrow> (exn + ModuleResult) \<times> module_state" where
  "run_gated cs module_argv s =
     (case is_supported cs s of
        (Inl e, s1) \<Rightarrow> (Inl e, s1)
      | (Inr supported, s1) \<Rightarrow>
          if supported then run cs module_argv s1 else (Inr (self_res s1), s1))"

section \<open>Observations of a run\<close>

definition initial_state :: module_state where
  "initial_state = \<lparr>self_res = PASSED, trace = []\<rparr>"

text \<open>
  What one call of the per-thread check returns and which events it adds, read off the
  check itself on a state with an empty trace. \<open>new_events s s'\<close> are the events that a
  run from \<open>s\<close> to \<open>s'\<close> added, and \<open>reads_of\<close> keeps the register reads of a trace.
\<close>

definition thread_result :: "chipset \<Rightarrow> int \<Rightarrow> exn + ModuleResult" where
  "thread_result cs tid = fst (thread_check_SMM_Code_Chk_En cs tid initial_state)"

definition thread_events :: "chipset \<Rightarrow> int \<Rightarrow> event list" where
  "thread_events cs tid = trace (snd (thread_check_SMM_Code_Chk_En cs tid initial_state))"

definition new_events :: "module_state \<Rightarrow> module_state \<Rightarrow> event list" where
  "new_events s s' = drop (length (trace s)) (trace s')"

fun is_read :: "event \<Rightarrow> bool" where
  "is_read (ReadRegister name tid) = True"
| "is_read e = False"

definition reads_of :: "event list \<Rightarrow> event list" where
  "reads_of evs = filter is_read evs"

section \<open>Example platforms\<close>

text \<open>
  Concrete chipsets on which the theorems below are instantiated. \<open>example_field\<close>
  decodes with LOCK in bit 0 and SMM_Code_Chk_En in bit 2, so the register values 5, 4,
  1 and 0 decode to (SMM_Code_Chk_En, LOCK) = (1,1), (1,0), (0,1) and (0,0).
  \<open>example_cs regs n\<close> reports \<open>n\<close> threads; a read of thread \<open>t\<close> gives the entry \<open>t\<close>
  of \<open>regs\<close> (a value or an exception), and raises where \<open>regs\<close> has no such entry.
\<close>

definition example_field :: "string \<Rightarrow> int \<Rightarrow> string \<Rightarrow> int" where
  "example_field name v field =
     (if field = ''LOCK'' then v mod 2
      else if field = ''SMM_Code_Chk_En'' then (v div 4) mod 2
      else 0)"

definition example_read :: "(exn + int) list \<Rightarrow> string \<Rightarrow> int \<Rightarrow> exn + int" where
  "example_read regs name t =
     (if 0 \<le> t \<and> t < int (length regs) then regs ! nat t else Inl OtherError)"

definition example_cs :: "(exn + int) list \<Rightarrow> int \<Rightarrow> chipset" where
  "example_cs regs n =
     \<lparr>read_register = example_read regs, get_register_field = example_field,
      get_cpu_thread_count = n\<rparr>"

section \<open>What one per-thread check does\<close>

lemma thread_check_read_ok:
  "read_register cs MSR_SMM_FEATURE_CONTROL tid = Inr regval \<Longrightarrow>
   thread_check_SMM_Code_Chk_En cs tid s =
     (Inr (if 1 = get_register_field cs MSR_SMM_FEATURE_CONTROL regval ''SMM_Code_Chk_En''
           then (if 1 = get_register_field cs MSR_SMM_FEATURE_CONTROL regval ''LOCK''
                 then PASSED else FAILED)
           else WARNING),
      emit (PrintRegister MSR_SMM_FEATURE_CONTROL regval)
        (emit (ReadRegister MSR_SMM_FEATURE_CONTROL tid) s))"
  by (simp add: thread_check_SMM_Code_Chk_En_def cs_read_register_def)

lemma thread_check_read_fails:
  "read_register cs MSR_SMM_FEATURE_CONTROL tid = Inl e \<Longrightarrow>
   thread_check_SMM_Code_Chk_En cs tid s =
     (Inl e, emit (ReadRegister MSR_SMM_FEATURE_CONTROL tid) s)"
  by (simp add: thread_check_SMM_Code_Chk_En_def cs_read_register_def)

lemma thread_events_eq:
  "thread_events cs tid =
     ReadRegister MSR_SMM_FEATURE_CONTROL tid #
       (case read_register cs MSR_SMM_FEATURE_CONTROL tid of
          Inl e \<Rightarrow> []
        | Inr regval \<Rightarrow> [PrintRegister MSR_SMM_FEATURE_CONTROL regval])"
  by (cases "read_register cs MSR_SMM_FEATURE_CONTROL tid")
     (simp_all add: thread_events_def thread_check_read_ok thread_check_read_fails
        emit_def initial_state_def)

lemma thread_result_eq:
  "thread_result cs tid =
     (case read_register cs MSR_SMM_FEATURE_CONTROL tid of
        Inl e \<Rightarrow> Inl e
      | Inr regval \<Rightarrow>
          Inr (if 1 = get_register_field cs MSR_SMM_FEATURE_CONTROL regval ''SMM_Code_Chk_En''
               then (if 1 = get_register_field cs MSR_SMM_FEATURE_CONTROL regval ''LOCK''
                     then PASSED else FAILED)
               else WARNING))"
  by (cases "read_register cs MSR_SMM_FEATURE_CONTROL tid")
     (simp_all add: thread_result_def thread_check_read_ok thread_check_read_fails)

text \<open>
  The check of one thread, on any state: its value does not depend on the state, and
  the state changes by the thread's events only.
\<close>

lemma thread_check_eq:
  "thread_check_SMM_Code_Chk_En cs tid s =
     (thread_result cs tid, s\<lparr>trace := trace s @ thread_events cs tid\<rparr>)"
  by (cases "read_register cs MSR_SMM_FEATURE_CONTROL tid")
     (simp_all add: thread_result_eq thread_events_eq thread_check_read_ok
        thread_check_read_fails emit_def)

lemma thread_result_not_ERROR: "thread_result cs tid \<noteq> Inr ERROR"
  by (simp add: thread_result_eq split: sum.splits)

lemma thread_result_range:
  "thread_result cs tid = Inr r \<Longrightarrow> r = PASSED \<or> r = FAILED \<or> r = WARNING"
  by (auto simp: thread_result_eq split: sum.splits if_splits)

lemma reads_of_thread_events:
  "reads_of (thread_events cs tid) = [ReadRegister MSR_SMM_FEATURE_CONTROL tid]"
  by (simp add: reads_of_def thread_events_eq split: sum.splits)

section \<open>What the loop does\<close>

text \<open>
  The loop visits a prefix of the thread ids: all of them when it returns the list, and
  the ids up to the first one whose check raises otherwise. Its state changes by the
  events of the visited threads.
\<close>

lemma collect_results_state:
  "\<exists>k \<le> length tids.
     snd (collect_results cs tids acc s) =
       s\<lparr>trace := trace s @ concat (map (thread_events cs) (take k tids))\<rparr>
     \<and> (\<forall>rs. fst (collect_results cs tids acc s) = Inr rs \<longrightarrow> k = length tids)
     \<and> (tids \<noteq> [] \<longrightarrow> 0 < k)"
proof (induction tids arbitrary: acc s)
  case Nil
  show ?case by simp
next
  case (Cons tid tids)
  show ?case
  proof (cases "thread_result cs tid")
    case (Inl e)
    then have "snd (collect_results cs (tid # tids) acc s) =
        s\<lparr>trace := trace s @ concat (map (thread_events cs) (take 1 (tid # tids)))\<rparr>"
      and "\<forall>rs. fst (collect_results cs (tid # tids) acc s) \<noteq> Inr rs"
      by (simp_all add: thread_check_eq)
    then show ?thesis
      by (intro exI [of _ 1]) simp
  next
    case (Inr r)
    let ?s1 = "s\<lparr>trace := trace s @ thread_events cs tid\<rparr>"
    from Cons.IH [of "acc @ [r]" ?s1] obtain k where k: "k \<le> length tids"
      "snd (collect_results cs tids (acc @ [r]) ?s1) =
         ?s1\<lparr>trace := trace ?s1 @ concat (map (thread_events cs) (take k tids))\<rparr>"
      "\<forall>rs. fst (collect_results cs tids (acc @ [r]) ?s1) = Inr rs \<longrightarrow> k = length tids"
      by blast
    have step: "collect_results cs (tid # tids) acc s = collect_results cs tids (acc @ [r]) ?s1"
      using Inr by (simp add: thread_check_eq)
    show ?thesis
      unfolding step using k by (intro exI [of _ "Suc k"]) simp
  qed
qed

text \<open>The value of the loop does not depend on the state it starts in.\<close>

lemma collect_results_fst:
  "fst (collect_results cs tids acc s) = fst (collect_results cs tids acc s')"
proof (induction tids arbitrary: acc s s')
  case Nil
  show ?case by simp
next
  case (Cons tid tids)
  show ?case
    by (cases "thread_result cs tid") (simp_all add: thread_check_eq Cons.IH)
qed

text \<open>When every visited thread can be read, the loop returns one result per thread.\<close>

lemma collect_results_ok:
  "\<forall>tid \<in> set tids. \<exists>v. read_register cs MSR_SMM_FEATURE_CONTROL tid = Inr v \<Longrightarrow>
   \<exists>rs. fst (collect_results cs tids acc s) = Inr (acc @ rs)
     \<and> map Inr rs = map (thread_result cs) tids"
proof (induction tids arbitrary: acc s)
  case Nil
  show ?case by simp
next
  case (Cons tid tids)
  from Cons.prems obtain v where v: "read_register cs MSR_SMM_FEATURE_CONTROL tid = Inr v"
    by auto
  then obtain r where r: "thread_result cs tid = Inr r"
    by (simp add: thread_result_eq)
  let ?s1 = "s\<lparr>trace := trace s @ thread_events cs tid\<rparr>"
  from Cons.IH [of "acc @ [r]" ?s1] Cons.prems obtain rs where
    rs: "fst (collect_results cs tids (acc @ [r]) ?s1) = Inr ((acc @ [r]) @ rs)"
        "map Inr rs = map (thread_result cs) tids"
    by auto
  show ?case
    using r rs by (intro exI [of _ "r # rs"]) (simp add: thread_check_eq)
qed

text \<open>Whatever the loop returns extends the list it started with by thread results.\<close>

lemma collect_results_Inr:
  "fst (collect_results cs tids acc s) = Inr rs' \<Longrightarrow>
   \<exists>rs. rs' = acc @ rs \<and> map Inr rs = map (thread_result cs) tids"
proof (induction tids arbitrary: acc s)
  case Nil
  then show ?case by simp
next
  case (Cons tid tids)
  show ?case
  proof (cases "thread_result cs tid")
    case (Inl e)
    with Cons.prems show ?thesis by (simp add: thread_check_eq)
  next
    case (Inr r)
    with Cons.prems have
      "fst (collect_results cs tids (acc @ [r]) (s\<lparr>trace := trace s @ thread_events cs tid\<rparr>))
         = Inr rs'"
      by (simp add: thread_check_eq)
    from Cons.IH [OF this] obtain rs where "rs' = (acc @ [r]) @ rs"
      "map Inr rs = map (thread_result cs) tids" by blast
    then show ?thesis
      using Inr by (intro exI [of _ "r # rs"]) simp
  qed
qed

text \<open>The first thread whose read raises ends the loop with that exception.\<close>

lemma collect_results_raises:
  "k < length tids \<Longrightarrow> thread_result cs (tids ! k) = Inl e \<Longrightarrow>
   \<forall>j < k. \<exists>r. thread_result cs (tids ! j) = Inr r \<Longrightarrow>
   fst (collect_results cs tids acc s) = Inl e"
proof (induction tids arbitrary: k acc s)
  case Nil
  then show ?case by simp
next
  case (Cons tid tids)
  show ?case
  proof (cases k)
    case 0
    with Cons.prems show ?thesis by (simp add: thread_check_eq)
  next
    case (Suc k')
    with Cons.prems obtain r where r: "thread_result cs tid = Inr r"
      by fastforce
    have "fst (collect_results cs tids (acc @ [r])
                 (s\<lparr>trace := trace s @ thread_events cs tid\<rparr>)) = Inl e"
    proof (rule Cons.IH [of k'])
      show "k' < length tids" using Cons.prems Suc by simp
      show "thread_result cs (tids ! k') = Inl e" using Cons.prems Suc by simp
      show "\<forall>j<k'. \<exists>r. thread_result cs (tids ! j) = Inr r"
        using Cons.prems(3) Suc by (metis Suc_less_eq nth_Cons_Suc)
    qed
    then show ?thesis using r by (simp add: thread_check_eq)
  qed
qed

section \<open>Ranges, indexing and the unanimity test\<close>

lemma range_py_empty: "n \<le> 0 \<Longrightarrow> range_py n = []"
  by (simp add: range_py_def)

lemma range_py_Cons: "1 \<le> n \<Longrightarrow> range_py n = 0 # [1..n - 1]"
  by (simp add: range_py_def upto_rec1)

lemma length_range_py: "length (range_py n) = nat n"
  by (simp add: range_py_def)

lemma nth_range_py: "i < nat n \<Longrightarrow> range_py n ! i = int i"
  by (simp add: range_py_def)

lemma set_range_py: "set (range_py n) = {t. 0 \<le> t \<and> t < n}"
  by (auto simp: range_py_def)

lemma distinct_range_py: "distinct (range_py n)"
  by (simp add: range_py_def)

lemma getitem_0: "getitem xs 0 = (case xs of [] \<Rightarrow> Inl IndexError | x # ys \<Rightarrow> Inr x)"
  by (simp add: getitem_def split: list.splits)

lemma all_eq_first_Inr:
  "getitem results 0 = Inr f \<Longrightarrow> all_eq_first results xs = Inr (\<forall>x \<in> set xs. x = f)"
  by (induction xs) auto

section \<open>What the aggregation returns and records\<close>

text \<open>
  The value of \<open>check_SMM_Code_Chk_En\<close>, from the value of its loop (started in any
  state): an exception of the loop, IndexError for an empty list, ERROR for a list
  whose entries are not all the first one, and the first entry otherwise.
\<close>

lemma check_fst:
  "fst (check_SMM_Code_Chk_En cs s) =
     (case fst (collect_results cs (range_py (get_cpu_thread_count cs)) [] s0) of
        Inl e \<Rightarrow> Inl e
      | Inr results \<Rightarrow>
          (case results of
             [] \<Rightarrow> Inl IndexError
           | f # rest \<Rightarrow> if \<forall>x \<in> set results. x = f then Inr f else Inr ERROR))"
proof -
  let ?s1 = "emit (StartTest msg_start_test) s"
  let ?loop = "collect_results cs (range_py (get_cpu_thread_count cs)) []"
  obtain x s2 where loop: "?loop ?s1 = (x, s2)"
    by (cases "?loop ?s1")
  have x: "fst (?loop s0) = x"
    using collect_results_fst [of cs _ "[]" s0 ?s1] loop by simp
  show ?thesis
  proof (cases x)
    case (Inl e)
    then show ?thesis
      by (simp add: check_SMM_Code_Chk_En_def loop x)
  next
    case (Inr results)
    show ?thesis
    proof (cases results)
      case Nil
      then show ?thesis
        by (simp add: check_SMM_Code_Chk_En_def loop x Inr getitem_0)
    next
      case (Cons f rest)
      then have "getitem results 0 = Inr f"
        by (simp add: getitem_0)
      then show ?thesis
        using Cons
        by (simp add: check_SMM_Code_Chk_En_def loop x Inr all_eq_first_Inr Let_def)
    qed
  qed
qed

text \<open>
  The state after \<open>check_SMM_Code_Chk_En\<close>: the start of the test, the events of the
  threads that the loop visited, and one closing log line when a result is returned.
  \<open>self.res\<close> is not written.
\<close>

lemma check_snd:
  "\<exists>k \<le> length (range_py (get_cpu_thread_count cs)).
     snd (check_SMM_Code_Chk_En cs s) =
       s\<lparr>trace := trace s @
           StartTest msg_start_test #
           concat (map (thread_events cs) (take k (range_py (get_cpu_thread_count cs)))) @
           (case fst (check_SMM_Code_Chk_En cs s) of
              Inl e \<Rightarrow> []
            | Inr r \<Rightarrow>
                [if r = ERROR then LogFailedCheck msg_not_same
                 else if r = WARNING then Warn msg_not_enabled
                 else LogPassedCheck msg_locked])\<rparr>
     \<and> (\<forall>r. fst (check_SMM_Code_Chk_En cs s) = Inr r
            \<longrightarrow> k = length (range_py (get_cpu_thread_count cs)))
     \<and> (\<forall>rs. fst (collect_results cs (range_py (get_cpu_thread_count cs)) [] s0) = Inr rs
            \<longrightarrow> k = length (range_py (get_cpu_thread_count cs)))
     \<and> (range_py (get_cpu_thread_count cs) \<noteq> [] \<longrightarrow> 0 < k)"
proof -
  let ?s1 = "emit (StartTest msg_start_test) s"
  let ?tids = "range_py (get_cpu_thread_count cs)"
  obtain x s2 where loop: "collect_results cs ?tids [] ?s1 = (x, s2)"
    by (cases "collect_results cs ?tids [] ?s1")
  from collect_results_state [of ?tids cs "[]" ?s1] loop obtain k where
    k: "k \<le> length ?tids"
       "s2 = ?s1\<lparr>trace := trace ?s1 @ concat (map (thread_events cs) (take k ?tids))\<rparr>"
       "\<forall>rs. x = Inr rs \<longrightarrow> k = length ?tids"
       "?tids \<noteq> [] \<longrightarrow> 0 < k"
    by auto
  have s2: "s2 = s\<lparr>trace := trace s @ StartTest msg_start_test #
                      concat (map (thread_events cs) (take k ?tids))\<rparr>"
    using k(2) by (simp add: emit_def)
  have "snd (check_SMM_Code_Chk_En cs s) =
       s\<lparr>trace := trace s @
           StartTest msg_start_test #
           concat (map (thread_events cs) (take k ?tids)) @
           (case fst (check_SMM_Code_Chk_En cs s) of
              Inl e \<Rightarrow> []
            | Inr r \<Rightarrow>
                [if r = ERROR then LogFailedCheck msg_not_same
                 else if r = WARNING then Warn msg_not_enabled
                 else LogPassedCheck msg_locked])\<rparr>
     \<and> (\<forall>r. fst (check_SMM_Code_Chk_En cs s) = Inr r \<longrightarrow> k = length ?tids)"
  proof (cases x)
    case (Inl e)
    then show ?thesis
      by (simp add: check_SMM_Code_Chk_En_def loop s2)
  next
    case (Inr results)
    from collect_results_Inr [of cs ?tids "[]" ?s1 results] loop Inr
    have res: "map Inr results = map (thread_result cs) ?tids"
      by simp
    have kl: "k = length ?tids" using k(3) Inr by simp
    show ?thesis
    proof (cases results)
      case Nil
      then show ?thesis
        by (simp add: check_SMM_Code_Chk_En_def loop Inr getitem_0 s2)
    next
      case (Cons f rest)
      then have g: "getitem results 0 = Inr f"
        by (simp add: getitem_0)
      have "Inr f \<in> set (map (thread_result cs) ?tids)"
        using res Cons by (metis list.set_intros(1) list.simps(9))
      then have "f \<noteq> ERROR"
        using thread_result_not_ERROR by (metis (no_types, lifting) imageE list.set_map)
      then have "check_SMM_Code_Chk_En cs s =
          (if \<not> (\<forall>x \<in> set results. x = f)
           then (Inr ERROR, emit (LogFailedCheck msg_not_same) s2)
           else (Inr f, if f = WARNING then emit (Warn msg_not_enabled) s2
                        else emit (LogPassedCheck msg_locked) s2))"
        using g by (simp add: check_SMM_Code_Chk_En_def loop Inr all_eq_first_Inr Let_def)
      then show ?thesis
        using kl \<open>f \<noteq> ERROR\<close> by (simp add: s2 emit_def)
    qed
  qed
  moreover have "\<forall>rs. fst (collect_results cs ?tids [] s0) = Inr rs \<longrightarrow> k = length ?tids"
    using k(3) loop collect_results_fst [of cs ?tids "[]" s0 ?s1] by simp
  ultimately show ?thesis
    using k(1) k(4) by blast
qed

section \<open>Runs in which every thread can be read\<close>

lemma thread_result_Inr_read:
  "thread_result cs tid = Inr r \<Longrightarrow> \<exists>v. read_register cs MSR_SMM_FEATURE_CONTROL tid = Inr v"
  by (cases "read_register cs MSR_SMM_FEATURE_CONTROL tid") (simp_all add: thread_result_eq)

lemma collect_results_all:
  assumes "\<forall>tid \<in> set tids. \<exists>r. thread_result cs tid = Inr r"
  shows "\<exists>rs. fst (collect_results cs tids [] s) = Inr rs
           \<and> length rs = length tids
           \<and> (\<forall>i < length tids. thread_result cs (tids ! i) = Inr (rs ! i))"
proof -
  from assms have "\<forall>tid \<in> set tids. \<exists>v. read_register cs MSR_SMM_FEATURE_CONTROL tid = Inr v"
    using thread_result_Inr_read by blast
  from collect_results_ok [OF this, of "[]" s] obtain rs where
    rs: "fst (collect_results cs tids [] s) = Inr rs"
        "map Inr rs = map (thread_result cs) tids"
    by auto
  have len: "length rs = length tids"
    using rs(2) by (rule map_eq_imp_length_eq)
  have "thread_result cs (tids ! i) = Inr (rs ! i)" if "i < length tids" for i
  proof -
    have "map (thread_result cs) tids ! i = (map Inr rs :: (exn + ModuleResult) list) ! i"
      using rs(2) by simp
    then show ?thesis using that len by simp
  qed
  then show ?thesis using rs(1) len by blast
qed

lemma range_py_index:
  "tid \<in> set (range_py n) \<Longrightarrow> nat tid < length (range_py n) \<and> range_py n ! nat tid = tid"
  by (simp add: set_range_py length_range_py nth_range_py)

lemma count_reads_other_threads:
  "t \<notin> set tids \<Longrightarrow>
   count_list (concat (map (thread_events cs) tids)) (ReadRegister name t) = 0"
  by (induction tids) (auto simp: thread_events_eq split: sum.splits)

lemma reads_of_concat_thread_events:
  "reads_of (concat (map (thread_events cs) tids)) =
     map (ReadRegister MSR_SMM_FEATURE_CONTROL) tids"
proof (induction tids)
  case Nil
  show ?case by (simp add: reads_of_def)
next
  case (Cons tid tids)
  have "reads_of (concat (map (thread_events cs) (tid # tids))) =
        reads_of (thread_events cs tid) @ reads_of (concat (map (thread_events cs) tids))"
    by (simp add: reads_of_def)
  then show ?case
    by (simp add: Cons.IH reads_of_thread_events)
qed

section \<open>The per-thread decision table\<close>

text \<open>
  C1. Whenever the read of thread \<open>tid\<close> succeeds and the two decoded fields are 0 or 1,
  the per-thread check returns a result \<open>r\<close> with: \<open>r\<close> is PASSED exactly when
  SMM_Code_Chk_En = 1 and LOCK = 1, FAILED exactly when SMM_Code_Chk_En = 1 and
  LOCK = 0, WARNING exactly when SMM_Code_Chk_En = 0 (whatever LOCK is), and \<open>r\<close> is
  none of the other results.
\<close>

theorem thread_check_decision_table:
  assumes "read_register cs MSR_SMM_FEATURE_CONTROL tid = Inr regval"
    and "lock = get_register_field cs MSR_SMM_FEATURE_CONTROL regval ''LOCK''"
    and "code_chk_en = get_register_field cs MSR_SMM_FEATURE_CONTROL regval ''SMM_Code_Chk_En''"
    and "lock \<in> {0, 1}" and "code_chk_en \<in> {0, 1}"
  shows "\<exists>r. fst (thread_check_SMM_Code_Chk_En cs tid s) = Inr r
           \<and> (r = PASSED \<longleftrightarrow> code_chk_en = 1 \<and> lock = 1)
           \<and> (r = FAILED \<longleftrightarrow> code_chk_en = 1 \<and> lock = 0)
           \<and> (r = WARNING \<longleftrightarrow> code_chk_en = 0)
           \<and> r \<noteq> ERROR \<and> r \<noteq> NOTAPPLICABLE"
  using assms by (auto simp: thread_check_read_ok)

theorem thread_check_decision_table_witness:
  "read_register (example_cs [Inr 5, Inr 4, Inr 0] 3) MSR_SMM_FEATURE_CONTROL 1 = Inr 4
   \<and> get_register_field (example_cs [Inr 5, Inr 4, Inr 0] 3)
         MSR_SMM_FEATURE_CONTROL 4 ''LOCK'' = 0
   \<and> get_register_field (example_cs [Inr 5, Inr 4, Inr 0] 3)
         MSR_SMM_FEATURE_CONTROL 4 ''SMM_Code_Chk_En'' = 1
   \<and> fst (thread_check_SMM_Code_Chk_En (example_cs [Inr 5, Inr 4, Inr 0] 3) 1 initial_state)
       = Inr FAILED"
  using thread_check_decision_table
    [of "example_cs [Inr 5, Inr 4, Inr 0] 3" 1 4 0 1 initial_state]
  by (simp add: example_cs_def example_read_def example_field_def)

section \<open>The evaluator never reports ERROR\<close>

lemma msg_not_locked_neq: "msg_not_locked \<noteq> msg_not_same"
  by (simp add: msg_not_locked_def msg_not_same_def)

lemma not_locked_notin_thread_events:
  "LogFailedCheck m \<notin> set (concat (map (thread_events cs) tids))"
  by (auto simp: thread_events_eq split: sum.splits)

text \<open>
  C7. The per-thread check never returns ERROR, on any chipset, thread and state. So a
  list that the loop returns has no ERROR entry (a unanimous ERROR cannot occur), and
  the branch of the aggregation for a unanimous ERROR, which logs "SMM_Code_Chk_En is
  enabled but not locked down", is never taken: that log line is not among the events
  of any run of the aggregation.
\<close>

theorem evaluator_never_ERROR:
  "fst (thread_check_SMM_Code_Chk_En cs tid s) \<noteq> Inr ERROR
   \<and> (case fst (collect_results cs tids [] s) of
        Inl e \<Rightarrow> True
      | Inr results \<Rightarrow> ERROR \<notin> set results)
   \<and> LogFailedCheck msg_not_locked
       \<notin> set (new_events s (snd (check_SMM_Code_Chk_En cs s)))"
proof (intro conjI)
  show "fst (thread_check_SMM_Code_Chk_En cs tid s) \<noteq> Inr ERROR"
    by (simp add: thread_check_eq thread_result_not_ERROR)
next
  show "case fst (collect_results cs tids [] s) of
          Inl e \<Rightarrow> True | Inr results \<Rightarrow> ERROR \<notin> set results"
  proof (cases "fst (collect_results cs tids [] s)")
    case (Inl e)
    then show ?thesis by simp
  next
    case (Inr results)
    from collect_results_Inr [OF this]
    have m: "map Inr results = map (thread_result cs) tids" by simp
    have "ERROR \<notin> set results"
    proof
      assume "ERROR \<in> set results"
      then have "Inr ERROR \<in> set (map Inr results :: (exn + ModuleResult) list)"
        by simp
      then obtain t where "thread_result cs t = Inr ERROR"
        unfolding m by auto
      then show False by (simp add: thread_result_not_ERROR)
    qed
    then show ?thesis using Inr by simp
  qed
next
  from check_snd [of cs s] obtain k where
    "snd (check_SMM_Code_Chk_En cs s) =
       s\<lparr>trace := trace s @
           StartTest msg_start_test #
           concat (map (thread_events cs) (take k (range_py (get_cpu_thread_count cs)))) @
           (case fst (check_SMM_Code_Chk_En cs s) of
              Inl e \<Rightarrow> []
            | Inr r \<Rightarrow>
                [if r = ERROR then LogFailedCheck msg_not_same
                 else if r = WARNING then Warn msg_not_enabled
                 else LogPassedCheck msg_locked])\<rparr>"
    by blast
  then have "new_events s (snd (check_SMM_Code_Chk_En cs s)) =
           StartTest msg_start_test #
           concat (map (thread_events cs) (take k (range_py (get_cpu_thread_count cs)))) @
           (case fst (check_SMM_Code_Chk_En cs s) of
              Inl e \<Rightarrow> []
            | Inr r \<Rightarrow>
                [if r = ERROR then LogFailedCheck msg_not_same
                 else if r = WARNING then Warn msg_not_enabled
                 else LogPassedCheck msg_locked])"
    by (simp add: new_events_def)
  then show "LogFailedCheck msg_not_locked
       \<notin> set (new_events s (snd (check_SMM_Code_Chk_En cs s)))"
    using not_locked_notin_thread_events [of msg_not_locked cs] msg_not_locked_neq
    by (simp split: sum.splits)
qed

section \<open>Determinism\<close>

text \<open>
  C9. For a fixed chipset (the same register value for every thread and the same thread
  count), the result of the aggregation is the same from any two states of the module;
  in particular a second call, made in the state that the first call left, returns what
  the first returned.
\<close>

theorem check_deterministic:
  "fst (check_SMM_Code_Chk_En cs s) = fst (check_SMM_Code_Chk_En cs s')
   \<and> fst (check_SMM_Code_Chk_En cs (snd (check_SMM_Code_Chk_En cs s)))
       = fst (check_SMM_Code_Chk_En cs s)"
  using check_fst [of cs s initial_state] check_fst [of cs s' initial_state]
    check_fst [of cs "snd (check_SMM_Code_Chk_En cs s)" initial_state]
  by simp

section \<open>The applicability gate\<close>

text \<open>
  C4. When the probe read of \<open>is_supported\<close> raises HWAccessViolationError,
  \<open>is_supported\<close> catches it, stores NOTAPPLICABLE in \<open>self.res\<close> and returns False,
  having made the probe read and nothing else. When the probe read returns a value,
  \<open>is_supported\<close> returns True and the state does not depend on the value: it changes
  by the record of the read only.
\<close>

theorem is_supported_gate:
  "(read_register cs MSR_SMM_FEATURE_CONTROL default_cpu_thread = Inl HWAccessViolationError
      \<longrightarrow> is_supported cs s =
            (Inr False,
             s\<lparr>self_res := NOTAPPLICABLE,
               trace := trace s @ [ReadRegister MSR_SMM_FEATURE_CONTROL default_cpu_thread]\<rparr>))
   \<and> (\<forall>v. read_register cs MSR_SMM_FEATURE_CONTROL default_cpu_thread = Inr v
      \<longrightarrow> is_supported cs s =
            (Inr True,
             s\<lparr>trace := trace s @ [ReadRegister MSR_SMM_FEATURE_CONTROL default_cpu_thread]\<rparr>))"
  by (simp add: is_supported_def cs_read_register_def emit_def)

theorem is_supported_gate_witness:
  "read_register (example_cs [Inl HWAccessViolationError, Inr 5] 2)
     MSR_SMM_FEATURE_CONTROL default_cpu_thread = Inl HWAccessViolationError
   \<and> is_supported (example_cs [Inl HWAccessViolationError, Inr 5] 2) initial_state =
       (Inr False,
        \<lparr>self_res = NOTAPPLICABLE,
         trace = [ReadRegister MSR_SMM_FEATURE_CONTROL default_cpu_thread]\<rparr>)
   \<and> read_register (example_cs [Inr 5, Inr 5] 2)
       MSR_SMM_FEATURE_CONTROL default_cpu_thread = Inr 5
   \<and> is_supported (example_cs [Inr 5, Inr 5] 2) initial_state =
       (Inr True,
        \<lparr>self_res = PASSED,
         trace = [ReadRegister MSR_SMM_FEATURE_CONTROL default_cpu_thread]\<rparr>)"
  using is_supported_gate [of "example_cs [Inl HWAccessViolationError, Inr 5] 2" initial_state]
    is_supported_gate [of "example_cs [Inr 5, Inr 5] 2" initial_state]
  by (simp add: example_cs_def example_read_def default_cpu_thread_def initial_state_def)

section \<open>A platform without threads\<close>

text \<open>
  C8. When \<open>get_cpu_thread_count\<close> returns 0, the loop returns the empty list without
  a read, the unanimity test on the empty list is true, \<open>results[0]\<close> raises IndexError,
  and that is the outcome of the aggregation: none of the five results and not
  HWAccessViolationError. Conversely, whenever the aggregation returns a result, the
  thread count is at least 1.
\<close>

theorem check_no_threads:
  "(get_cpu_thread_count cs = 0 \<longrightarrow>
      collect_results cs (range_py (get_cpu_thread_count cs)) [] s = (Inr [], s)
      \<and> all_eq_first ([] :: ModuleResult list) [] = Inr True
      \<and> getitem ([] :: ModuleResult list) 0 = Inl IndexError
      \<and> fst (check_SMM_Code_Chk_En cs s) = Inl IndexError
      \<and> fst (check_SMM_Code_Chk_En cs s) \<noteq> Inl HWAccessViolationError
      \<and> fst (check_SMM_Code_Chk_En cs s)
          \<notin> {Inr PASSED, Inr FAILED, Inr WARNING, Inr ERROR, Inr NOTAPPLICABLE})
   \<and> (\<forall>v. fst (check_SMM_Code_Chk_En cs s) = Inr v \<longrightarrow> 1 \<le> get_cpu_thread_count cs)"
proof -
  have empty: "fst (check_SMM_Code_Chk_En cs s) = Inl IndexError"
    if "get_cpu_thread_count cs \<le> 0"
    using that check_fst [of cs s s] by (simp add: range_py_empty)
  have "1 \<le> get_cpu_thread_count cs" if "fst (check_SMM_Code_Chk_En cs s) = Inr v" for v
  proof (rule ccontr)
    assume "\<not> 1 \<le> get_cpu_thread_count cs"
    then have "fst (check_SMM_Code_Chk_En cs s) = Inl IndexError"
      by (intro empty) simp
    with that show False by simp
  qed
  then show ?thesis
    using empty by (simp add: range_py_empty getitem_0)
qed

theorem check_no_threads_witness:
  "get_cpu_thread_count (example_cs [] 0) = 0
   \<and> fst (check_SMM_Code_Chk_En (example_cs [] 0) initial_state) = Inl IndexError
   \<and> fst (check_SMM_Code_Chk_En (example_cs [Inr 0] 1) initial_state) = Inr WARNING
   \<and> 1 \<le> get_cpu_thread_count (example_cs [Inr 0] 1)"
proof -
  have run1: "fst (check_SMM_Code_Chk_En (example_cs [Inr 0] 1) initial_state) = Inr WARNING"
    by (simp add: check_fst [of _ _ initial_state] range_py_def upto_rec1
          thread_check_eq thread_result_eq example_cs_def example_read_def example_field_def)
  show ?thesis
    using check_no_threads [of "example_cs [] 0" initial_state]
      check_no_threads [of "example_cs [Inr 0] 1" initial_state] run1
    by (simp add: example_cs_def)
qed

section \<open>Disagreement and unanimity\<close>

text \<open>
  C2. On a platform with at least two threads on which every per-thread check returns a
  result, if the checks of two threads \<open>i\<close> and \<open>j\<close> return different results, the
  aggregation returns ERROR, whichever results they are and however many threads
  differ. After the per-thread checks the run only logs that the register does not have
  the same value across all CPUs: its events are the start of the test, the events of
  the threads, and that one line.
\<close>

theorem check_disagreement_ERROR:
  assumes "2 \<le> get_cpu_thread_count cs"
    and "\<forall>tid \<in> set (range_py (get_cpu_thread_count cs)). \<exists>r. thread_result cs tid = Inr r"
    and "i \<in> set (range_py (get_cpu_thread_count cs))"
    and "j \<in> set (range_py (get_cpu_thread_count cs))"
    and "thread_result cs i \<noteq> thread_result cs j"
  shows "fst (check_SMM_Code_Chk_En cs s) = Inr ERROR
     \<and> new_events s (snd (check_SMM_Code_Chk_En cs s)) =
         StartTest msg_start_test #
         concat (map (thread_events cs) (range_py (get_cpu_thread_count cs))) @
         [LogFailedCheck msg_not_same]"
proof -
  let ?tids = "range_py (get_cpu_thread_count cs)"
  from collect_results_all [OF assms(2), of s] obtain rs where
    rs: "fst (collect_results cs ?tids [] s) = Inr rs" "length rs = length ?tids"
        "\<forall>k < length ?tids. thread_result cs (?tids ! k) = Inr (rs ! k)"
    by blast
  have ri: "thread_result cs i = Inr (rs ! nat i)" and li: "nat i < length rs"
    using rs(2,3) range_py_index [OF assms(3)] by auto
  have rj: "thread_result cs j = Inr (rs ! nat j)" and lj: "nat j < length rs"
    using rs(2,3) range_py_index [OF assms(4)] by auto
  have differ: "rs ! nat i \<noteq> rs ! nat j"
    using assms(5) ri rj by simp
  obtain f rest where f: "rs = f # rest"
    using li by (cases rs) auto
  have "\<not> (\<forall>x \<in> set rs. x = f)"
  proof
    assume "\<forall>x \<in> set rs. x = f"
    then have "rs ! nat i = f" "rs ! nat j = f"
      using li lj nth_mem by blast+
    with differ show False by simp
  qed
  then have verdict: "fst (check_SMM_Code_Chk_En cs s) = Inr ERROR"
    using check_fst [of cs s s] rs(1) f by auto
  from check_snd [of cs s] verdict obtain k where
    "snd (check_SMM_Code_Chk_En cs s) =
       s\<lparr>trace := trace s @
           StartTest msg_start_test #
           concat (map (thread_events cs) (take k ?tids)) @ [LogFailedCheck msg_not_same]\<rparr>"
    "k = length ?tids"
    by auto
  then have "new_events s (snd (check_SMM_Code_Chk_En cs s)) =
         StartTest msg_start_test #
         concat (map (thread_events cs) ?tids) @ [LogFailedCheck msg_not_same]"
    by (simp add: new_events_def)
  with verdict show ?thesis by simp
qed

theorem check_disagreement_ERROR_witness:
  "2 \<le> get_cpu_thread_count (example_cs [Inr 5, Inr 4] 2)
   \<and> thread_result (example_cs [Inr 5, Inr 4] 2) 0 = Inr PASSED
   \<and> thread_result (example_cs [Inr 5, Inr 4] 2) 1 = Inr FAILED
   \<and> fst (check_SMM_Code_Chk_En (example_cs [Inr 5, Inr 4] 2) initial_state) = Inr ERROR"
proof -
  let ?cs = "example_cs [Inr 5, Inr 4] 2"
  have r: "range_py (get_cpu_thread_count ?cs) = [0, 1]"
    by (simp add: example_cs_def range_py_def upto_rec1)
  have t0: "thread_result ?cs 0 = Inr PASSED" and t1: "thread_result ?cs 1 = Inr FAILED"
    by (simp_all add: thread_result_eq example_cs_def example_read_def example_field_def)
  have n: "2 \<le> get_cpu_thread_count ?cs"
    by (simp add: example_cs_def)
  have "fst (check_SMM_Code_Chk_En ?cs initial_state) = Inr ERROR"
    using check_disagreement_ERROR [of ?cs 0 1 initial_state] n t0 t1
    by (simp add: r)
  with n t0 t1 show ?thesis by simp
qed

text \<open>
  C3, as the code has it. On a platform with at least one thread, if the per-thread
  check of every thread returns the same result \<open>V\<close>, the aggregation returns \<open>V\<close>.
  (With no thread at all the aggregation returns no result, as shown after the witness.)
\<close>

theorem check_unanimous:
  assumes "1 \<le> get_cpu_thread_count cs"
    and "\<forall>tid \<in> set (range_py (get_cpu_thread_count cs)). thread_result cs tid = Inr V"
  shows "fst (check_SMM_Code_Chk_En cs s) = Inr V"
proof -
  let ?tids = "range_py (get_cpu_thread_count cs)"
  from assms(2) have "\<forall>tid \<in> set ?tids. \<exists>r. thread_result cs tid = Inr r"
    by simp
  from collect_results_all [OF this, of s] obtain rs where
    rs: "fst (collect_results cs ?tids [] s) = Inr rs" "length rs = length ?tids"
        "\<forall>k < length ?tids. thread_result cs (?tids ! k) = Inr (rs ! k)"
    by blast
  have all_V: "x = V" if "x \<in> set rs" for x
  proof -
    from that obtain k where k: "k < length rs" "rs ! k = x"
      by (auto simp: in_set_conv_nth)
    then have "thread_result cs (?tids ! k) = Inr x"
      using rs(2,3) by auto
    moreover have "?tids ! k \<in> set ?tids"
      using k(1) rs(2) by simp
    ultimately show ?thesis using assms(2) by auto
  qed
  have "0 < length rs"
    using assms(1) rs(2) by (simp add: length_range_py)
  then obtain f rest where f: "rs = f # rest"
    by (cases rs) auto
  have "f = V"
    using all_V f by simp
  have "fst (check_SMM_Code_Chk_En cs s) =
          (if \<forall>x \<in> set rs. x = f then Inr f else Inr ERROR)"
    unfolding check_fst [of cs s s] rs(1) by (simp add: f)
  moreover have "\<forall>x \<in> set rs. x = f"
    using all_V \<open>f = V\<close> by blast
  ultimately show ?thesis
    using \<open>f = V\<close> by simp
qed

theorem check_unanimous_witness:
  "1 \<le> get_cpu_thread_count (example_cs [Inr 5, Inr 5, Inr 5, Inr 5] 4)
   \<and> thread_result (example_cs [Inr 5, Inr 5, Inr 5, Inr 5] 4) 0 = Inr PASSED
   \<and> thread_result (example_cs [Inr 5, Inr 5, Inr 5, Inr 5] 4) 1 = Inr PASSED
   \<and> thread_result (example_cs [Inr 5, Inr 5, Inr 5, Inr 5] 4) 2 = Inr PASSED
   \<and> thread_result (example_cs [Inr 5, Inr 5, Inr 5, Inr 5] 4) 3 = Inr PASSED
   \<and> fst (check_SMM_Code_Chk_En (example_cs [Inr 5, Inr 5, Inr 5, Inr 5] 4) initial_state)
       = Inr PASSED"
proof -
  let ?cs = "example_cs [Inr 5, Inr 5, Inr 5, Inr 5] 4"
  have r: "range_py (get_cpu_thread_count ?cs) = [0, 1, 2, 3]"
    by (simp add: example_cs_def range_py_def upto_rec1)
  have t: "thread_result ?cs 0 = Inr PASSED" "thread_result ?cs 1 = Inr PASSED"
    "thread_result ?cs 2 = Inr PASSED" "thread_result ?cs 3 = Inr PASSED"
    by (simp_all add: thread_result_eq example_cs_def example_read_def example_field_def)
  have n: "1 \<le> get_cpu_thread_count ?cs"
    by (simp add: example_cs_def)
  have "fst (check_SMM_Code_Chk_En ?cs initial_state) = Inr PASSED"
    using check_unanimous [of ?cs PASSED initial_state] n t
    by (simp add: r)
  with n t show ?thesis by simp
qed

text \<open>
  The claim C3 as it is written, for every thread count, fails for the thread count 0:
  there every one of the (no) threads returns PASSED, and the aggregation raises
  IndexError instead of returning PASSED.
\<close>

theorem check_unanimous_counterexample:
  "range_py (get_cpu_thread_count (example_cs [] 0)) = []
   \<and> fst (check_SMM_Code_Chk_En (example_cs [] 0) initial_state) = Inl IndexError
   \<and> fst (check_SMM_Code_Chk_En (example_cs [] 0) initial_state) \<noteq> Inr PASSED"
  by (simp add: check_fst [of _ _ initial_state] example_cs_def range_py_def)

section \<open>A read that fails after the gate\<close>

text \<open>
  C5. When the register read of a thread \<open>k\<close> in range raises HWAccessViolationError,
  the per-thread check of \<open>k\<close> raises it (it is not caught and no result is made of
  it), and the aggregation returns none of the five results: it raises. When the
  threads before \<open>k\<close> can all be read, so that the read of \<open>k\<close> is the first to fail,
  the exception that the aggregation (and \<open>run\<close>) raises is that
  HWAccessViolationError.
\<close>

theorem read_failure_propagates:
  assumes "k \<in> set (range_py (get_cpu_thread_count cs))"
    and "read_register cs MSR_SMM_FEATURE_CONTROL k = Inl HWAccessViolationError"
  shows "fst (thread_check_SMM_Code_Chk_En cs k s') = Inl HWAccessViolationError
     \<and> (\<exists>e. fst (check_SMM_Code_Chk_En cs s) = Inl e)
     \<and> fst (check_SMM_Code_Chk_En cs s)
          \<notin> {Inr PASSED, Inr FAILED, Inr WARNING, Inr ERROR, Inr NOTAPPLICABLE}
     \<and> ((\<forall>j \<in> set (range_py (get_cpu_thread_count cs)).
            j < k \<longrightarrow> (\<exists>v. read_register cs MSR_SMM_FEATURE_CONTROL j = Inr v))
          \<longrightarrow> fst (check_SMM_Code_Chk_En cs s) = Inl HWAccessViolationError
            \<and> fst (run cs module_argv s) = Inl HWAccessViolationError)"
proof -
  let ?tids = "range_py (get_cpu_thread_count cs)"
  have tk: "thread_result cs k = Inl HWAccessViolationError"
    using assms(2) by (simp add: thread_result_eq)
  have idx: "nat k < length ?tids" "?tids ! nat k = k"
    using range_py_index [OF assms(1)] by simp_all
  have raises: "\<exists>e. fst (collect_results cs ?tids [] s) = Inl e"
  proof (cases "fst (collect_results cs ?tids [] s)")
    case (Inl e)
    then show ?thesis by simp
  next
    case (Inr rs')
    from collect_results_Inr [OF this]
    have m: "map Inr rs' = map (thread_result cs) ?tids" by simp
    then have "length rs' = length ?tids"
      by (rule map_eq_imp_length_eq)
    then have "(map Inr rs' :: (exn + ModuleResult) list) ! nat k = Inr (rs' ! nat k)"
      using idx(1) by simp
    then have "thread_result cs k = Inr (rs' ! nat k)"
      unfolding m using idx by simp
    with tk show ?thesis by simp
  qed
  then obtain e where e: "fst (check_SMM_Code_Chk_En cs s) = Inl e"
    using check_fst [of cs s s] by auto
  have first: "fst (check_SMM_Code_Chk_En cs s) = Inl HWAccessViolationError"
    if prev: "\<forall>j \<in> set ?tids. j < k \<longrightarrow> (\<exists>v. read_register cs MSR_SMM_FEATURE_CONTROL j = Inr v)"
  proof -
    have "\<forall>j < nat k. \<exists>r. thread_result cs (?tids ! j) = Inr r"
    proof (intro allI impI)
      fix j assume j: "j < nat k"
      then have "j < length ?tids" using idx(1) by simp
      then have mem: "?tids ! j \<in> set ?tids" by simp
      have "?tids ! j = int j"
        using \<open>j < length ?tids\<close> by (simp add: length_range_py nth_range_py)
      then have "?tids ! j < k" using j by simp
      with prev mem obtain v where "read_register cs MSR_SMM_FEATURE_CONTROL (?tids ! j) = Inr v"
        by blast
      then show "\<exists>r. thread_result cs (?tids ! j) = Inr r"
        by (simp add: thread_result_eq)
    qed
    from collect_results_raises [OF idx(1) _ this, of HWAccessViolationError "[]" s]
    have "fst (collect_results cs ?tids [] s) = Inl HWAccessViolationError"
      using tk idx(2) by simp
    then show ?thesis
      using check_fst [of cs s s] by simp
  qed
  have "fst (thread_check_SMM_Code_Chk_En cs k s') = Inl HWAccessViolationError"
    using tk by (simp add: thread_check_eq)
  then show ?thesis
    using e first by (auto simp: run_def)
qed

theorem read_failure_propagates_witness:
  "1 \<in> set (range_py (get_cpu_thread_count (example_cs [Inr 5, Inl HWAccessViolationError] 2)))
   \<and> read_register (example_cs [Inr 5, Inl HWAccessViolationError] 2)
        MSR_SMM_FEATURE_CONTROL 1 = Inl HWAccessViolationError
   \<and> read_register (example_cs [Inr 5, Inl HWAccessViolationError] 2)
        MSR_SMM_FEATURE_CONTROL 0 = Inr 5
   \<and> fst (check_SMM_Code_Chk_En (example_cs [Inr 5, Inl HWAccessViolationError] 2)
            initial_state) = Inl HWAccessViolationError"
proof -
  let ?cs = "example_cs [Inr 5, Inl HWAccessViolationError] 2"
  have r: "range_py (get_cpu_thread_count ?cs) = [0, 1]"
    by (simp add: example_cs_def range_py_def upto_rec1)
  have r1: "read_register ?cs MSR_SMM_FEATURE_CONTROL 1 = Inl HWAccessViolationError"
    and r0: "read_register ?cs MSR_SMM_FEATURE_CONTROL 0 = Inr 5"
    by (simp_all add: example_cs_def example_read_def)
  have "fst (check_SMM_Code_Chk_En ?cs initial_state) = Inl HWAccessViolationError"
    using read_failure_propagates [of 1 ?cs initial_state initial_state "[]"] r0 r1
    by (simp add: r)
  with r r0 r1 show ?thesis by simp
qed


section \<open>The register reads of a run\<close>

lemma reads_of_append: "reads_of (xs @ ys) = reads_of xs @ reads_of ys"
  by (simp add: reads_of_def)

lemma new_events_append: "new_events s (s'\<lparr>trace := trace s @ evs\<rparr>) = evs"
  by (simp add: new_events_def)

text \<open>
  The reads of one run of the aggregation are the reads of the threads that its loop
  visited, one per thread, in the order of the loop.
\<close>

lemma check_reads:
  "\<exists>k \<le> length (range_py (get_cpu_thread_count cs)).
     reads_of (new_events s (snd (check_SMM_Code_Chk_En cs s))) =
       map (ReadRegister MSR_SMM_FEATURE_CONTROL) (take k (range_py (get_cpu_thread_count cs)))
     \<and> trace (snd (check_SMM_Code_Chk_En cs s)) =
         trace s @ new_events s (snd (check_SMM_Code_Chk_En cs s))
     \<and> (\<forall>rs. fst (collect_results cs (range_py (get_cpu_thread_count cs)) [] s0) = Inr rs
            \<longrightarrow> k = length (range_py (get_cpu_thread_count cs)))
     \<and> (range_py (get_cpu_thread_count cs) \<noteq> [] \<longrightarrow> 0 < k)"
proof -
  let ?tids = "range_py (get_cpu_thread_count cs)"
  let ?closing = "case fst (check_SMM_Code_Chk_En cs s) of
              Inl e \<Rightarrow> []
            | Inr r \<Rightarrow>
                [if r = ERROR then LogFailedCheck msg_not_same
                 else if r = WARNING then Warn msg_not_enabled
                 else LogPassedCheck msg_locked]"
  from check_snd [of cs s s0] obtain k where k: "k \<le> length ?tids"
    "snd (check_SMM_Code_Chk_En cs s) =
       s\<lparr>trace := trace s @
           StartTest msg_start_test #
           concat (map (thread_events cs) (take k ?tids)) @ ?closing\<rparr>"
    "\<forall>rs. fst (collect_results cs ?tids [] s0) = Inr rs \<longrightarrow> k = length ?tids"
    "?tids \<noteq> [] \<longrightarrow> 0 < k"
    by blast
  have ev: "new_events s (snd (check_SMM_Code_Chk_En cs s)) =
           StartTest msg_start_test #
           concat (map (thread_events cs) (take k ?tids)) @ ?closing"
    unfolding k(2) by (simp add: new_events_def)
  have c: "reads_of ?closing = []"
    by (simp add: reads_of_def split: sum.splits)
  have "reads_of (new_events s (snd (check_SMM_Code_Chk_En cs s))) =
        reads_of (concat (map (thread_events cs) (take k ?tids))) @ reads_of ?closing"
    unfolding ev by (simp add: reads_of_def)
  then have r: "reads_of (new_events s (snd (check_SMM_Code_Chk_En cs s))) =
        map (ReadRegister MSR_SMM_FEATURE_CONTROL) (take k ?tids)"
    by (simp add: c reads_of_concat_thread_events)
  have t: "trace (snd (check_SMM_Code_Chk_En cs s)) =
         trace s @ new_events s (snd (check_SMM_Code_Chk_En cs s))"
    unfolding ev unfolding k(2) by simp
  show ?thesis
    using k(1) k(3) k(4) r t by blast
qed

text \<open>
  C6, as the code has it. In every run of the aggregation the reads, each the one read
  of one call of the per-thread check, are those of an initial part of
  \<open>range(get_cpu_thread_count())\<close>, in order: no thread id is visited twice and none
  outside the range. In every run in which the per-thread check of every thread in
  range returns a result, the loop visits the whole range: the reads are exactly one
  per thread id 0, 1, ..., and the list that the loop returns has as many entries as
  there are threads, entry \<open>i\<close> being the result of the per-thread check of thread \<open>i\<close>.
\<close>

theorem loop_visits_every_thread:
  "(\<exists>k \<le> length (range_py (get_cpu_thread_count cs)).
      reads_of (new_events s (snd (check_SMM_Code_Chk_En cs s))) =
        map (ReadRegister MSR_SMM_FEATURE_CONTROL)
          (take k (range_py (get_cpu_thread_count cs))))
   \<and> distinct (range_py (get_cpu_thread_count cs))
   \<and> set (range_py (get_cpu_thread_count cs)) = {t. 0 \<le> t \<and> t < get_cpu_thread_count cs}
   \<and> reads_of (thread_events cs tid) = [ReadRegister MSR_SMM_FEATURE_CONTROL tid]
   \<and> ((\<forall>t \<in> set (range_py (get_cpu_thread_count cs)). \<exists>r. thread_result cs t = Inr r) \<longrightarrow>
        (\<exists>results s2.
           collect_results cs (range_py (get_cpu_thread_count cs)) []
             (emit (StartTest msg_start_test) s) = (Inr results, s2)
           \<and> length results = nat (get_cpu_thread_count cs)
           \<and> (\<forall>i < length results. thread_result cs (int i) = Inr (results ! i))
           \<and> reads_of (new_events s (snd (check_SMM_Code_Chk_En cs s))) =
               map (ReadRegister MSR_SMM_FEATURE_CONTROL)
                 (range_py (get_cpu_thread_count cs))))"
proof -
  let ?tids = "range_py (get_cpu_thread_count cs)"
  let ?s1 = "emit (StartTest msg_start_test) s"
  have prefix: "\<exists>k \<le> length ?tids.
      reads_of (new_events s (snd (check_SMM_Code_Chk_En cs s))) =
        map (ReadRegister MSR_SMM_FEATURE_CONTROL) (take k ?tids)"
    using check_reads [of cs s s] by blast
  have whole: "\<exists>results s2.
           collect_results cs ?tids [] ?s1 = (Inr results, s2)
           \<and> length results = nat (get_cpu_thread_count cs)
           \<and> (\<forall>i < length results. thread_result cs (int i) = Inr (results ! i))
           \<and> reads_of (new_events s (snd (check_SMM_Code_Chk_En cs s))) =
               map (ReadRegister MSR_SMM_FEATURE_CONTROL) ?tids"
    if ok: "\<forall>t \<in> set ?tids. \<exists>r. thread_result cs t = Inr r"
  proof -
    from collect_results_all [OF ok, of ?s1] obtain rs where
      rs: "fst (collect_results cs ?tids [] ?s1) = Inr rs" "length rs = length ?tids"
          "\<forall>i < length ?tids. thread_result cs (?tids ! i) = Inr (rs ! i)"
      by blast
    obtain s2 where s2: "collect_results cs ?tids [] ?s1 = (Inr rs, s2)"
      using rs(1) by (cases "collect_results cs ?tids [] ?s1") simp
    have len: "length rs = nat (get_cpu_thread_count cs)"
      using rs(2) by (simp add: length_range_py)
    have nth: "\<forall>i < length rs. thread_result cs (int i) = Inr (rs ! i)"
      using rs(3) len by (simp add: length_range_py nth_range_py)
    from check_reads [of cs s ?s1] rs(1) obtain k where
      "reads_of (new_events s (snd (check_SMM_Code_Chk_En cs s))) =
         map (ReadRegister MSR_SMM_FEATURE_CONTROL) (take k ?tids)"
      "k = length ?tids"
      by blast
    then have "reads_of (new_events s (snd (check_SMM_Code_Chk_En cs s))) =
         map (ReadRegister MSR_SMM_FEATURE_CONTROL) ?tids"
      by simp
    with s2 len nth show ?thesis by blast
  qed
  show ?thesis
    using prefix whole
    by (simp add: distinct_range_py set_range_py reads_of_thread_events)
qed

theorem loop_visits_every_thread_witness:
  "thread_result (example_cs [Inr 5, Inr 4, Inr 0] 3) 0 = Inr PASSED
   \<and> thread_result (example_cs [Inr 5, Inr 4, Inr 0] 3) 1 = Inr FAILED
   \<and> thread_result (example_cs [Inr 5, Inr 4, Inr 0] 3) 2 = Inr WARNING
   \<and> range_py (get_cpu_thread_count (example_cs [Inr 5, Inr 4, Inr 0] 3)) = [0, 1, 2]
   \<and> reads_of (new_events initial_state
        (snd (check_SMM_Code_Chk_En (example_cs [Inr 5, Inr 4, Inr 0] 3) initial_state))) =
       [ReadRegister MSR_SMM_FEATURE_CONTROL 0, ReadRegister MSR_SMM_FEATURE_CONTROL 1,
        ReadRegister MSR_SMM_FEATURE_CONTROL 2]"
proof -
  let ?cs = "example_cs [Inr 5, Inr 4, Inr 0] 3"
  have r: "range_py (get_cpu_thread_count ?cs) = [0, 1, 2]"
    by (simp add: example_cs_def range_py_def upto_rec1)
  have t: "thread_result ?cs 0 = Inr PASSED" "thread_result ?cs 1 = Inr FAILED"
    "thread_result ?cs 2 = Inr WARNING"
    by (simp_all add: thread_result_eq example_cs_def example_read_def example_field_def)
  have "reads_of (new_events initial_state (snd (check_SMM_Code_Chk_En ?cs initial_state))) =
       [ReadRegister MSR_SMM_FEATURE_CONTROL 0, ReadRegister MSR_SMM_FEATURE_CONTROL 1,
        ReadRegister MSR_SMM_FEATURE_CONTROL 2]"
    using loop_visits_every_thread [of ?cs initial_state 0] t
    by (simp add: r del: collect_results.simps, blast)
  with r t show ?thesis by simp
qed


text \<open>
  The claim C6 as it is written, for every run of the aggregation, fails in a run in
  which a read raises: on a platform with two threads whose thread 0 cannot be read,
  the loop stops at thread 0 with the exception, so thread 1, which is in range, is
  never visited, and no list of results is returned.
\<close>

theorem loop_visits_every_thread_counterexample:
  "range_py (get_cpu_thread_count (example_cs [Inl HWAccessViolationError, Inr 5] 2)) = [0, 1]
   \<and> fst (collect_results (example_cs [Inl HWAccessViolationError, Inr 5] 2)
            (range_py (get_cpu_thread_count (example_cs [Inl HWAccessViolationError, Inr 5] 2)))
            [] (emit (StartTest msg_start_test) initial_state))
       = Inl HWAccessViolationError
   \<and> fst (check_SMM_Code_Chk_En (example_cs [Inl HWAccessViolationError, Inr 5] 2)
            initial_state) = Inl HWAccessViolationError
   \<and> reads_of (new_events initial_state
        (snd (check_SMM_Code_Chk_En (example_cs [Inl HWAccessViolationError, Inr 5] 2)
               initial_state)))
       = [ReadRegister MSR_SMM_FEATURE_CONTROL 0]
   \<and> ReadRegister MSR_SMM_FEATURE_CONTROL 1
       \<notin> set (new_events initial_state
            (snd (check_SMM_Code_Chk_En (example_cs [Inl HWAccessViolationError, Inr 5] 2)
                   initial_state)))"
proof -
  let ?cs = "example_cs [Inl HWAccessViolationError, Inr 5] 2"
  have r: "range_py (get_cpu_thread_count ?cs) = [0, 1]"
    by (simp add: example_cs_def range_py_def upto_rec1)
  have t0: "thread_result ?cs 0 = Inl HWAccessViolationError"
    by (simp add: thread_result_eq example_cs_def example_read_def)
  have e0: "thread_events ?cs 0 = [ReadRegister MSR_SMM_FEATURE_CONTROL 0]"
    by (simp add: thread_events_eq example_cs_def example_read_def)
  have loop: "collect_results ?cs [0, 1] [] (emit (StartTest msg_start_test) initial_state) =
      (Inl HWAccessViolationError,
       \<lparr>self_res = PASSED,
        trace = [StartTest msg_start_test, ReadRegister MSR_SMM_FEATURE_CONTROL 0]\<rparr>)"
    by (simp add: thread_check_eq t0 e0 emit_def initial_state_def)
  have run: "check_SMM_Code_Chk_En ?cs initial_state =
      (Inl HWAccessViolationError,
       \<lparr>self_res = PASSED,
        trace = [StartTest msg_start_test, ReadRegister MSR_SMM_FEATURE_CONTROL 0]\<rparr>)"
    unfolding check_SMM_Code_Chk_En_def r Let_def loop by simp
  show ?thesis
    unfolding r loop run
    by (simp add: new_events_def reads_of_def initial_state_def)
qed

section \<open>The probe and the double read of thread 0\<close>

lemma is_supported_state:
  "\<exists>r. snd (is_supported cs s) =
     s\<lparr>self_res := r,
       trace := trace s @ [ReadRegister MSR_SMM_FEATURE_CONTROL default_cpu_thread]\<rparr>"
proof (cases "read_register cs MSR_SMM_FEATURE_CONTROL default_cpu_thread")
  case (Inl e)
  show ?thesis
  proof (cases "e = HWAccessViolationError")
    case True
    with Inl show ?thesis
      by (intro exI [of _ NOTAPPLICABLE])
         (simp add: is_supported_def cs_read_register_def emit_def)
  next
    case False
    with Inl show ?thesis
      by (intro exI [of _ "self_res s"])
         (simp add: is_supported_def cs_read_register_def emit_def)
  qed
next
  case (Inr v)
  then show ?thesis
    by (intro exI [of _ "self_res s"])
       (simp add: is_supported_def cs_read_register_def emit_def)
qed

lemma count_reads_thread_0:
  assumes "1 \<le> n" and "0 < k"
  shows "count_list (concat (map (thread_events cs) (take k (range_py n))))
           (ReadRegister MSR_SMM_FEATURE_CONTROL 0) = 1"
proof -
  obtain k' where k': "k = Suc k'"
    using assms(2) by (cases k) auto
  have "0 \<notin> set (take k' [1..n - 1])"
    using set_take_subset [of k' "[1..n - 1]"] by auto
  then have rest: "count_list (concat (map (thread_events cs) (take k' [1..n - 1])))
           (ReadRegister MSR_SMM_FEATURE_CONTROL 0) = 0"
    by (rule count_reads_other_threads)
  have "count_list (thread_events cs 0) (ReadRegister MSR_SMM_FEATURE_CONTROL 0) = 1"
    by (simp add: thread_events_eq split: sum.splits)
  then show ?thesis
    using rest by (simp add: range_py_Cons [OF assms(1)] k')
qed

text \<open>
  C10. The probe of \<open>is_supported\<close> makes exactly one register read, of the default
  thread, which is thread 0. In a run in which that read succeeds and the platform has
  at least one thread, \<open>is_supported\<close> returns True, the aggregation then reads the
  register of every thread that it visits once, thread 0 first, and so the register of
  thread 0 is read exactly twice in the whole run: once by the probe and once by the
  aggregation.
\<close>

theorem probe_reads_thread_0:
  "reads_of (new_events s (snd (is_supported cs s))) =
     [ReadRegister MSR_SMM_FEATURE_CONTROL 0]
   \<and> (\<forall>v. read_register cs MSR_SMM_FEATURE_CONTROL 0 = Inr v
            \<and> 1 \<le> get_cpu_thread_count cs \<longrightarrow>
        fst (is_supported cs s) = Inr True
        \<and> (\<exists>k > 0. reads_of (new_events s (snd (run_gated cs module_argv s))) =
              ReadRegister MSR_SMM_FEATURE_CONTROL 0 #
              map (ReadRegister MSR_SMM_FEATURE_CONTROL)
                (take k (range_py (get_cpu_thread_count cs))))
        \<and> hd (range_py (get_cpu_thread_count cs)) = 0
        \<and> count_list (new_events s (snd (run_gated cs module_argv s)))
             (ReadRegister MSR_SMM_FEATURE_CONTROL 0) = 2)"
proof -
  let ?R = "ReadRegister MSR_SMM_FEATURE_CONTROL"
  let ?tids = "range_py (get_cpu_thread_count cs)"
  have probe: "reads_of (new_events s (snd (is_supported cs s))) = [?R 0]"
  proof -
    from is_supported_state [of cs s] obtain r where
      "snd (is_supported cs s) = s\<lparr>self_res := r, trace := trace s @ [?R default_cpu_thread]\<rparr>"
      by blast
    then show ?thesis
      by (simp add: new_events_def reads_of_def default_cpu_thread_def)
  qed
  have supported:
    "fst (is_supported cs s) = Inr True
     \<and> (\<exists>k > 0. reads_of (new_events s (snd (run_gated cs module_argv s))) =
           ?R 0 # map ?R (take k ?tids))
     \<and> hd ?tids = 0
     \<and> count_list (new_events s (snd (run_gated cs module_argv s))) (?R 0) = 2"
    if v: "read_register cs MSR_SMM_FEATURE_CONTROL 0 = Inr v"
      and n: "1 \<le> get_cpu_thread_count cs" for v
  proof -
    let ?s1 = "s\<lparr>trace := trace s @ [?R 0]\<rparr>"
    have gate: "is_supported cs s = (Inr True, ?s1)"
      using v by (simp add: is_supported_def cs_read_register_def emit_def
                    default_cpu_thread_def)
    then have rg: "run_gated cs module_argv s = check_SMM_Code_Chk_En cs ?s1"
      by (simp add: run_gated_def run_def)
    have ne: "?tids \<noteq> []"
      using n by (simp add: range_py_Cons)
    let ?closing = "case fst (check_SMM_Code_Chk_En cs ?s1) of
              Inl e \<Rightarrow> []
            | Inr r \<Rightarrow>
                [if r = ERROR then LogFailedCheck msg_not_same
                 else if r = WARNING then Warn msg_not_enabled
                 else LogPassedCheck msg_locked]"
    from check_snd [of cs ?s1 s] ne obtain k where k: "0 < k"
      "snd (check_SMM_Code_Chk_En cs ?s1) =
         ?s1\<lparr>trace := trace ?s1 @
           StartTest msg_start_test #
           concat (map (thread_events cs) (take k ?tids)) @ ?closing\<rparr>"
      by blast
    have ev: "new_events s (snd (run_gated cs module_argv s)) =
        ?R 0 # StartTest msg_start_test #
          concat (map (thread_events cs) (take k ?tids)) @ ?closing"
      unfolding rg k(2) by (simp add: new_events_def)
    have c: "reads_of ?closing = []" "count_list ?closing (?R 0) = 0"
      by (simp_all add: reads_of_def split: sum.splits)
    have "reads_of (new_events s (snd (run_gated cs module_argv s))) =
        ?R 0 # reads_of (concat (map (thread_events cs) (take k ?tids))) @ reads_of ?closing"
      unfolding ev by (simp add: reads_of_def)
    then have reads: "reads_of (new_events s (snd (run_gated cs module_argv s))) =
        ?R 0 # map ?R (take k ?tids)"
      by (simp add: c reads_of_concat_thread_events)
    have "count_list (new_events s (snd (run_gated cs module_argv s))) (?R 0) =
        1 + count_list (concat (map (thread_events cs) (take k ?tids))) (?R 0)
          + count_list ?closing (?R 0)"
      unfolding ev by simp
    then have cnt: "count_list (new_events s (snd (run_gated cs module_argv s))) (?R 0) = 2"
      using count_reads_thread_0 [OF n k(1), of cs] c(2) by simp
    have "hd ?tids = 0"
      using n by (simp add: range_py_Cons)
    then show ?thesis
      using gate k(1) reads cnt by auto
  qed
  show ?thesis
    using probe supported by blast
qed

theorem probe_reads_thread_0_witness:
  "read_register (example_cs [Inr 5, Inr 5] 2) MSR_SMM_FEATURE_CONTROL 0 = Inr 5
   \<and> 1 \<le> get_cpu_thread_count (example_cs [Inr 5, Inr 5] 2)
   \<and> fst (is_supported (example_cs [Inr 5, Inr 5] 2) initial_state) = Inr True
   \<and> count_list
       (new_events initial_state (snd (run_gated (example_cs [Inr 5, Inr 5] 2) [] initial_state)))
       (ReadRegister MSR_SMM_FEATURE_CONTROL 0) = 2"
proof -
  let ?cs = "example_cs [Inr 5, Inr 5] 2"
  have v: "read_register ?cs MSR_SMM_FEATURE_CONTROL 0 = Inr 5"
    by (simp add: example_cs_def example_read_def)
  have n: "1 \<le> get_cpu_thread_count ?cs"
    by (simp add: example_cs_def)
  from probe_reads_thread_0 [of initial_state ?cs "[]"] v n
  have "fst (is_supported ?cs initial_state) = Inr True
     \<and> count_list (new_events initial_state (snd (run_gated ?cs [] initial_state)))
         (ReadRegister MSR_SMM_FEATURE_CONTROL 0) = 2"
    by blast
  with v n show ?thesis by simp
qed


end
